theory Spec2Isabelle
  imports Main "HOL-Library.Word" "HOL-Library.Signed_Division"
begin

unbundle bit_operations_syntax

section \<open>C strings and the string functions the watchdog example calls\<close>

text \<open>
  A \<open>const char *\<close> or a \<open>char\<close> array is modelled by the bytes stored there. The C
  string it denotes ends before the first NUL byte, so bytes after a NUL are invisible to
  \<open>strlen\<close>, \<open>strstr\<close>, \<open>strcmp\<close> and \<open>strncpy\<close>.
\<close>

definition NUL :: char where
  "NUL = CHR 0x00"

definition c_str :: "string \<Rightarrow> string" where
  "c_str bs = takeWhile (\<lambda>c. c \<noteq> NUL) bs"

definition strlen :: "string \<Rightarrow> nat" where
  "strlen bs = length (c_str bs)"

fun is_prefix :: "string \<Rightarrow> string \<Rightarrow> bool" where
  "is_prefix [] ys = True"
| "is_prefix (x # xs) [] = False"
| "is_prefix (x # xs) (y # ys) = (x = y \<and> is_prefix xs ys)"

fun find_sub :: "string \<Rightarrow> string \<Rightarrow> nat option" where
  "find_sub needle [] = (if needle = [] then Some 0 else None)"
| "find_sub needle (h # hs) =
     (if is_prefix needle (h # hs) then Some 0 else map_option Suc (find_sub needle hs))"

text \<open>\<open>strstr\<close> returns a pointer to the first occurrence, here its offset, or NULL.\<close>

definition strstr :: "string \<Rightarrow> string \<Rightarrow> nat option" where
  "strstr haystack needle = find_sub (c_str needle) (c_str haystack)"

text \<open>
  \<open>strncpy dest src n\<close> writes exactly \<open>n\<close> bytes: the string \<open>src\<close> cut at \<open>n\<close>, padded
  with NUL bytes. The bytes of \<open>dest\<close> from \<open>n\<close> on are kept. The only call site passes
  \<open>n = MAX_TASK_NAME_LEN - 1\<close> for a destination of \<open>MAX_TASK_NAME_LEN\<close> bytes.
\<close>

definition strncpy :: "string \<Rightarrow> string \<Rightarrow> nat \<Rightarrow> string" where
  "strncpy dest src n = take n (c_str src) @ replicate (n - strlen src) NUL @ drop n dest"

fun strcmp_bytes :: "string \<Rightarrow> string \<Rightarrow> int" where
  "strcmp_bytes [] [] = 0"
| "strcmp_bytes [] (y # ys) = - of_char y"
| "strcmp_bytes (x # xs) [] = of_char x"
| "strcmp_bytes (x # xs) (y # ys) =
     (if x = y then strcmp_bytes xs ys else of_char x - of_char y)"

definition strcmp :: "string \<Rightarrow> string \<Rightarrow> int" where
  "strcmp a b = strcmp_bytes (c_str a) (c_str b)"

section \<open>Global variables of the example\<close>

definition WATCHDOG_TIMEOUT_MS :: "32 word" where
  "WATCHDOG_TIMEOUT_MS = 5000"

definition RECOVERY_ACTIVE_BIT :: "32 word" where
  "RECOVERY_ACTIVE_BIT = 1"

definition MAX_TASK_NAME_LEN :: nat where
  "MAX_TASK_NAME_LEN = 32"

text \<open>
  \<open>event_group\<close> is \<open>None\<close> while the handle is NULL and holds the bits of the group once
  \<open>xEventGroupCreate\<close> has run. The two user handles are opaque. \<open>main.c\<close> has the first
  two and the fourth variable only; the rest belong to \<open>watchdog_multi_task.c\<close>.
\<close>

record globals =
  event_group :: "32 word option"
  twdt_user_handle :: "nat option"
  twdt_user_2_handle :: "nat option"
  g_watchdog_timeout_occurred :: bool
  failed_task_name :: string
  capturing_task_name :: bool
  task_name_captured :: bool

text \<open>The values the static initialisers give: a zeroed buffer, flags false, handles NULL.\<close>

definition initial_globals :: globals where
  "initial_globals =
     \<lparr>event_group = None, twdt_user_handle = None, twdt_user_2_handle = None,
      g_watchdog_timeout_occurred = False,
      failed_task_name = replicate MAX_TASK_NAME_LEN NUL,
      capturing_task_name = False, task_name_captured = False\<rparr>"

section \<open>The message handler that captures task names\<close>

definition twdt_msg_handler :: "string \<Rightarrow> globals \<Rightarrow> globals" where
  "twdt_msg_handler msg g =
     (if strstr msg '' -'' \<noteq> None
      then g\<lparr>capturing_task_name := True,
             failed_task_name := (failed_task_name g)[0 := NUL]\<rparr>
      else
        let g1 =
          (if capturing_task_name g \<and> strstr msg ''(CPU'' = None
           then (if strlen msg < MAX_TASK_NAME_LEN
                 then g\<lparr>failed_task_name :=
                          (strncpy (failed_task_name g) msg (MAX_TASK_NAME_LEN - 1))
                            [MAX_TASK_NAME_LEN - 1 := NUL],
                        task_name_captured := True\<rparr>
                 else g)
           else g)
        in (if strstr msg ''(CPU'' \<noteq> None then g1\<lparr>capturing_task_name := False\<rparr> else g1))"

text \<open>
  \<open>esp_task_wdt_print_triggered_tasks\<close> belongs to the timer subsystem. It hands its report
  to the handler one message at a time, in order; the report is a parameter here.
\<close>

definition print_triggered_tasks :: "string list \<Rightarrow> globals \<Rightarrow> globals" where
  "print_triggered_tasks report g = fold twdt_msg_handler report g"

text \<open>The statements of \<open>recovery_task\<close> that reset the capture state before each report.\<close>

definition reset_capture :: "globals \<Rightarrow> globals" where
  "reset_capture g =
     g\<lparr>capturing_task_name := False, task_name_captured := False,
       failed_task_name := (failed_task_name g)[0 := NUL]\<rparr>"

definition attribute :: "string list \<Rightarrow> globals \<Rightarrow> globals" where
  "attribute report g = print_triggered_tasks report (reset_capture g)"

text \<open>The attribution result read off the globals: the capture flag and the stored name.\<close>

definition captured :: "globals \<Rightarrow> bool" where
  "captured g = task_name_captured g"

definition name :: "globals \<Rightarrow> string" where
  "name g = c_str (failed_task_name g)"

section \<open>Calls into FreeRTOS and ESP-IDF\<close>

text \<open>
  Everything the example does beyond its own variables is a call into FreeRTOS or ESP-IDF.
  Each function returns the calls it makes, in order, next to the new globals.
\<close>

datatype led = STATUS_LED | STATUS_LED_2

record esp_task_wdt_config_t =
  timeout_ms :: "32 word"
  idle_core_mask :: "32 word"
  trigger_panic :: bool

datatype call =
    ESP_LOGI string "int list"
  | ESP_LOGW string "int list"
  | ESP_LOGE string "int list"
  | Gpio_config "led list"
  | Gpio_set_level led int
  | VTaskDelay_ms nat
  | XEventGroupCreate
  | XEventGroupSetBitsFromISR "32 word"
  | PortYIELD_FROM_ISR
  | XEventGroupWaitBits "32 word"
  | Esp_task_wdt_init esp_task_wdt_config_t
  | Esp_task_wdt_add_user string
  | Esp_task_wdt_reset_user "nat option"
  | Esp_task_wdt_print_triggered_tasks
  | XTaskCreate string nat nat

definition ESP_OK :: int where
  "ESP_OK = 0"

section \<open>The interrupt handler\<close>

text \<open>
  \<open>esp_task_wdt_isr_user_handler\<close> is the same in both files. \<open>woken\<close> is what
  \<open>xEventGroupSetBitsFromISR\<close> stores in \<open>xHigherPriorityTaskWoken\<close>; the scheduler
  decides it. The bit counts as set when the call returns.
\<close>

definition esp_task_wdt_isr_user_handler :: "bool \<Rightarrow> globals \<Rightarrow> globals \<times> call list" where
  "esp_task_wdt_isr_user_handler woken g =
     (let g1 = g\<lparr>g_watchdog_timeout_occurred := True\<rparr> in
      case event_group g1 of
        None \<Rightarrow> (g1, [])
      | Some bits \<Rightarrow>
          (g1\<lparr>event_group := Some (bits OR RECOVERY_ACTIVE_BIT)\<rparr>,
           XEventGroupSetBitsFromISR RECOVERY_ACTIVE_BIT
             # (if woken then [PortYIELD_FROM_ISR] else [])))"

section \<open>Initialisation\<close>

definition init_gpio :: "led list \<Rightarrow> call list" where
  "init_gpio leds = Gpio_config leds # map (\<lambda>l. Gpio_set_level l 0) leds"

definition twdt_config :: esp_task_wdt_config_t where
  "twdt_config =
     \<lparr>timeout_ms = WATCHDOG_TIMEOUT_MS, idle_core_mask = 0, trigger_panic = False\<rparr>"

text \<open>
  \<open>ESP_ERROR_CHECK\<close> aborts when the call does not return \<open>ESP_OK\<close>: the result is
  \<open>None\<close>. \<open>err\<close> is what \<open>esp_task_wdt_init\<close> returns.
\<close>

definition init_watchdog :: "int \<Rightarrow> call list option" where
  "init_watchdog err =
     (if err \<noteq> ESP_OK then None
      else Some [Esp_task_wdt_init twdt_config,
                 ESP_LOGI ''TWDT initialized with timeout: %d ms'' [uint WATCHDOG_TIMEOUT_MS]])"

text \<open>
  \<open>app_main\<close> of \<open>watchdog_multi_task.c\<close>. \<open>created\<close> tells whether \<open>xEventGroupCreate\<close>
  returned a group (with all bits clear) or NULL.
\<close>

definition app_main :: "bool \<Rightarrow> int \<Rightarrow> globals \<Rightarrow> (globals \<times> call list) option" where
  "app_main created err g =
     (let g1 = g\<lparr>event_group := (if created then Some 0 else None)\<rparr> in
      case init_watchdog err of
        None \<Rightarrow> None
      | Some t \<Rightarrow>
          Some (g1,
            [ESP_LOGI ''Starting Task Watchdog Example'' []]
            @ init_gpio [STATUS_LED, STATUS_LED_2]
            @ [XEventGroupCreate] @ t
            @ [XTaskCreate ''recovery_task'' 4096 5,
               XTaskCreate ''test_task'' 2048 4,
               XTaskCreate ''test_2_task'' 2048 4,
               ESP_LOGI ''All tasks created, system running'' []]))"

text \<open>\<open>app_main\<close> of \<open>main.c\<close>: one LED, one test task, a smaller recovery stack.\<close>

definition main_app_main :: "bool \<Rightarrow> int \<Rightarrow> globals \<Rightarrow> (globals \<times> call list) option" where
  "main_app_main created err g =
     (let g1 = g\<lparr>event_group := (if created then Some 0 else None)\<rparr> in
      case init_watchdog err of
        None \<Rightarrow> None
      | Some t \<Rightarrow>
          Some (g1,
            [ESP_LOGI ''Starting Task Watchdog Example'' []]
            @ init_gpio [STATUS_LED]
            @ [XEventGroupCreate] @ t
            @ [XTaskCreate ''recovery_task'' 2048 5,
               XTaskCreate ''test_task'' 2048 4,
               ESP_LOGI ''All tasks created, system running'' []]))"



section \<open>The test tasks\<close>

text \<open>
  Registration with the watchdog: \<open>esp_task_wdt_add_user\<close> stores the handle \<open>h\<close> on
  success; any other result aborts.
\<close>

definition test_task_register :: "int \<Rightarrow> nat \<Rightarrow> globals \<Rightarrow> (globals \<times> call list) option" where
  "test_task_register err h g =
     (if err \<noteq> ESP_OK then None
      else Some (g\<lparr>twdt_user_handle := Some h\<rparr>,
                 [Esp_task_wdt_add_user ''test_user'',
                  ESP_LOGI ''Test task registered with TWDT'' []]))"

definition test_2_task_register :: "int \<Rightarrow> nat \<Rightarrow> globals \<Rightarrow> (globals \<times> call list) option" where
  "test_2_task_register err h g =
     (if err \<noteq> ESP_OK then None
      else Some (g\<lparr>twdt_user_2_handle := Some h\<rparr>,
                 [Esp_task_wdt_add_user ''test_2_user'',
                  ESP_LOGI ''Test task registered with TWDT'' []]))"

text \<open>
  One pass through the \<open>while (1)\<close> body of a test task, from the counter before it to the
  counter after it. The two tasks differ in the handle, the LED, the delay and one log
  text. \<open>err\<close> is what \<open>esp_task_wdt_reset_user\<close> returns when it is called. The
  remainder of C rounds towards zero: \<open>smod\<close>.
\<close>

definition test_body ::
  "string \<Rightarrow> nat option \<Rightarrow> led \<Rightarrow> nat \<Rightarrow> int \<Rightarrow> int \<Rightarrow> (int \<times> call list) option" where
  "test_body running handle l delay err counter0 =
     (let counter = counter0 + 1;
          t0 = [ESP_LOGI running [counter]];
          finish = (\<lambda>c t. Some (c, t @ [Gpio_set_level l (c smod 2), VTaskDelay_ms delay]));
          reset = (\<lambda>c t. if err \<noteq> ESP_OK then None
                         else finish c (t @ [Esp_task_wdt_reset_user handle]))
      in
      if counter \<le> 3
      then reset counter (t0 @ [ESP_LOGI ''Resetting watchdog timer (%d/3)'' [counter]])
      else if counter = 4
      then finish counter
             (t0 @ [ESP_LOGW ''Not resetting watchdog - will trigger timeout in %d ms''
                      [uint WATCHDOG_TIMEOUT_MS]])
      else if counter > 10 \<and> counter < 20
      then reset counter
             (t0 @ [ESP_LOGI ''Resuming normal operation, resetting watchdog'' []])
      else if counter > 20 \<and> counter < 30
      then finish counter
             (t0 @ [ESP_LOGI ''Not resetting watchdog - will trigger timeout in %d ms''
                      [uint WATCHDOG_TIMEOUT_MS]])
      else if counter > 30 \<and> counter < 40
      then reset 0 (t0 @ [ESP_LOGI ''Resuming normal operation, resetting watchdog'' []])
      else finish counter t0)"

definition test_task :: "int \<Rightarrow> int \<Rightarrow> globals \<Rightarrow> (int \<times> globals \<times> call list) option" where
  "test_task err counter g =
     map_option (\<lambda>(c, t). (c, g, t))
       (test_body ''Test task running, counter = %d'' (twdt_user_handle g)
          STATUS_LED 1000 err counter)"

definition test_2_task :: "int \<Rightarrow> int \<Rightarrow> globals \<Rightarrow> (int \<times> globals \<times> call list) option" where
  "test_2_task err counter g =
     map_option (\<lambda>(c, t). (c, g, t))
       (test_body ''Test task running, counter_2 = %d'' (twdt_user_2_handle g)
          STATUS_LED_2 1500 err counter)"

section \<open>The recovery task\<close>

text \<open>
  \<open>xEventGroupWaitBits\<close> as the recovery task calls it: wait for any bit of the mask, clear
  it on exit, no timeout. It returns the bits as they were before the clearing.
\<close>

datatype wait_result = Blocked | Woken "32 word" "32 word"

definition xEventGroupWaitBits :: "32 word \<Rightarrow> 32 word \<Rightarrow> wait_result" where
  "xEventGroupWaitBits grp m =
     (if grp AND m = 0 then Blocked else Woken grp (grp AND NOT m))"

text \<open>The LED loop of a recovery action: \<open>n\<close> times on, delay, off, delay.\<close>

primrec blink :: "led \<Rightarrow> nat \<Rightarrow> call list" where
  "blink l 0 = []"
| "blink l (Suc n) =
     [Gpio_set_level l 1, VTaskDelay_ms 100, Gpio_set_level l 0, VTaskDelay_ms 100]
     @ blink l n"

text \<open>
  The loop body of \<open>recovery_task\<close> in \<open>watchdog_multi_task.c\<close>, in the two parts that follow
  the wait. First the capture state is reset and the report is requested; this happens
  before \<open>bits\<close> or the flag are looked at.
\<close>

definition recovery_diagnose :: "string list \<Rightarrow> globals \<Rightarrow> globals \<times> call list" where
  "recovery_diagnose report g =
     (attribute report g,
      [ESP_LOGI ''----------------A---------------------'' [],
       Esp_task_wdt_print_triggered_tasks,
       ESP_LOGI ''----------------B---------------------'' []])"

definition recovery_action :: "globals \<Rightarrow> call list" where
  "recovery_action g =
     (if task_name_captured g
      then (if strcmp (failed_task_name g) ''test_user'' = 0
            then ESP_LOGI ''test_user failed, taking specific recovery action...'' []
                   # blink STATUS_LED 10
            else [])
         @ (if strcmp (failed_task_name g) ''test_2_user'' = 0
            then ESP_LOGI ''test_2_user failed, taking specific recovery action...'' []
                   # blink STATUS_LED_2 10
            else [])
      else [])"

definition recovery_dispatch :: "32 word \<Rightarrow> globals \<Rightarrow> globals \<times> call list" where
  "recovery_dispatch bits g =
     (let (g1, t) =
        (if bits AND RECOVERY_ACTIVE_BIT \<noteq> 0
         then (if g_watchdog_timeout_occurred g
               then (g\<lparr>g_watchdog_timeout_occurred := False\<rparr>,
                     [ESP_LOGE ''Custom TWDT handler was invoked! Task failed to reset the watchdog in time.'' [],
                      ESP_LOGE ''Performing recovery actions...'' []]
                     @ recovery_action g
                     @ [ESP_LOGI ''Recovery complete'' []])
               else (g, []))
         else (g, []))
      in (g1, t @ [VTaskDelay_ms 100]))"

text \<open>What one iteration does once the wait has returned \<open>bits\<close>.\<close>

definition recovery_cycle :: "32 word \<Rightarrow> string list \<Rightarrow> globals \<Rightarrow> globals \<times> call list" where
  "recovery_cycle bits report g =
     (let (g1, t1) = recovery_diagnose report g;
          (g2, t2) = recovery_dispatch bits g1
      in (g2, t1 @ t2))"

text \<open>
  One iteration of \<open>while (1)\<close>, wait included. \<open>None\<close>: the task stays blocked in the wait,
  or there is no event group to wait on.
\<close>

definition recovery_task :: "string list \<Rightarrow> globals \<Rightarrow> (globals \<times> call list) option" where
  "recovery_task report g =
     (case event_group g of
        None \<Rightarrow> None
      | Some grp \<Rightarrow>
          (case xEventGroupWaitBits grp RECOVERY_ACTIVE_BIT of
             Blocked \<Rightarrow> None
           | Woken bits grp' \<Rightarrow>
               (let (g1, t) = recovery_cycle bits report (g\<lparr>event_group := Some grp'\<rparr>)
                in Some (g1, XEventGroupWaitBits RECOVERY_ACTIVE_BIT # t))))"

text \<open>The same for \<open>recovery_task\<close> in \<open>main.c\<close>, which has no report and one action.\<close>

definition main_recovery_dispatch :: "32 word \<Rightarrow> globals \<Rightarrow> globals \<times> call list" where
  "main_recovery_dispatch bits g =
     (let (g1, t) =
        (if bits AND RECOVERY_ACTIVE_BIT \<noteq> 0
         then (if g_watchdog_timeout_occurred g
               then (g\<lparr>g_watchdog_timeout_occurred := False\<rparr>,
                     [ESP_LOGE ''Custom TWDT handler was invoked! Task failed to reset the watchdog in time.'' [],
                      ESP_LOGE ''Performing recovery actions...'' []]
                     @ blink STATUS_LED 10
                     @ [ESP_LOGI ''Recovery complete'' []])
               else (g, []))
         else (g, []))
      in (g1, t @ [VTaskDelay_ms 100]))"

definition main_recovery_task :: "globals \<Rightarrow> (globals \<times> call list) option" where
  "main_recovery_task g =
     (case event_group g of
        None \<Rightarrow> None
      | Some grp \<Rightarrow>
          (case xEventGroupWaitBits grp RECOVERY_ACTIVE_BIT of
             Blocked \<Rightarrow> None
           | Woken bits grp' \<Rightarrow>
               (let (g1, t) = main_recovery_dispatch bits (g\<lparr>event_group := Some grp'\<rparr>)
                in Some (g1, XEventGroupWaitBits RECOVERY_ACTIVE_BIT # t))))"

section \<open>The grammar of a report, as the handler reads it\<close>

text \<open>
  The handler tests for the header marker first, so a line holding both markers counts as a
  header. A terminator is a line with the CPU marker and no header marker; a detail line
  has neither.
\<close>

definition is_header :: "string \<Rightarrow> bool" where
  "is_header l = (strstr l '' -'' \<noteq> None)"

definition is_terminator :: "string \<Rightarrow> bool" where
  "is_terminator l = (strstr l '' -'' = None \<and> strstr l ''(CPU'' \<noteq> None)"

definition is_detail :: "string \<Rightarrow> bool" where
  "is_detail l = (strstr l '' -'' = None \<and> strstr l ''(CPU'' = None)"

text \<open>
  A report read as groups: every header line opens a group, and the lines after it up to
  the next header are the body of the group. Lines before the first header belong to no
  group.
\<close>

type_synonym entry = "string \<times> string list"

fun entries :: "string list \<Rightarrow> entry list" where
  "entries [] = []"
| "entries (l # ls) =
     (if is_header l then (l, takeWhile (\<lambda>x. \<not> is_header x) ls) # entries ls
      else entries ls)"

text \<open>A group is complete when its body has a terminator.\<close>

definition complete_entry :: "entry \<Rightarrow> bool" where
  "complete_entry e = (case e of (h, body) \<Rightarrow> list_ex is_terminator body)"

text \<open>
  The name a group yields: the last of its detail lines before its first terminator that
  is short enough to be stored, if there is one.
\<close>

definition parsed_name :: "entry \<Rightarrow> string option" where
  "parsed_name e =
     (case e of (h, body) \<Rightarrow>
        (case filter (\<lambda>d. strlen d < MAX_TASK_NAME_LEN) (takeWhile is_detail body) of
           [] \<Rightarrow> None
         | f # fs \<Rightarrow> Some (c_str (last (f # fs)))))"

section \<open>Interleavings\<close>

text \<open>
  The interrupt handler can run between any two steps of the tasks. An event is one such
  step with the values it gets from outside; \<open>step\<close> gives its effect on the globals, and
  \<open>None\<close> where the step does not complete (a blocked wait, an abort).
\<close>

datatype event =
    Isr bool
  | Msg string
  | Recovery_wait
  | Recovery_reset
  | Recovery_dispatch "32 word"
  | Main_recovery_dispatch "32 word"
  | App_main bool int
  | Main_app_main bool int
  | Test_task_register int nat
  | Test_2_task_register int nat
  | Test_task int int
  | Test_2_task int int

fun step :: "event \<Rightarrow> globals \<Rightarrow> globals option" where
  "step (Isr woken) g = Some (fst (esp_task_wdt_isr_user_handler woken g))"
| "step (Msg msg) g = Some (twdt_msg_handler msg g)"
| "step Recovery_wait g =
     (case event_group g of
        None \<Rightarrow> None
      | Some grp \<Rightarrow>
          (case xEventGroupWaitBits grp RECOVERY_ACTIVE_BIT of
             Blocked \<Rightarrow> None
           | Woken bits grp' \<Rightarrow> Some (g\<lparr>event_group := Some grp'\<rparr>)))"
| "step Recovery_reset g = Some (reset_capture g)"
| "step (Recovery_dispatch bits) g = Some (fst (recovery_dispatch bits g))"
| "step (Main_recovery_dispatch bits) g = Some (fst (main_recovery_dispatch bits g))"
| "step (App_main created err) g = map_option fst (app_main created err g)"
| "step (Main_app_main created err) g = map_option fst (main_app_main created err g)"
| "step (Test_task_register err h) g = map_option fst (test_task_register err h g)"
| "step (Test_2_task_register err h) g = map_option fst (test_2_task_register err h g)"
| "step (Test_task err counter) g = map_option (\<lambda>(c, g', t). g') (test_task err counter g)"
| "step (Test_2_task err counter) g = map_option (\<lambda>(c, g', t). g') (test_2_task err counter g)"

fun run :: "event list \<Rightarrow> globals \<Rightarrow> globals option" where
  "run [] g = Some g"
| "run (e # es) g = (case step e g of None \<Rightarrow> None | Some g' \<Rightarrow> run es g')"

text \<open>The steps of the flag's consumer: the dispatch part of either recovery task.\<close>

fun consumer :: "event \<Rightarrow> bool" where
  "consumer (Recovery_dispatch bits) = True"
| "consumer (Main_recovery_dispatch bits) = True"
| "consumer e = False"

fun is_isr :: "event \<Rightarrow> bool" where
  "is_isr (Isr woken) = True"
| "is_isr e = False"

text \<open>A wake is pending when the event group exists and its recovery bit is set.\<close>

definition wake_pending :: "globals \<Rightarrow> bool" where
  "wake_pending g =
     (case event_group g of None \<Rightarrow> False | Some grp \<Rightarrow> grp AND RECOVERY_ACTIVE_BIT \<noteq> 0)"

section \<open>Facts about the string functions\<close>

lemma NUL_notin_c_str: "NUL \<notin> set (c_str bs)"
proof
  assume "NUL \<in> set (c_str bs)"
  then have "NUL \<noteq> NUL"
    unfolding c_str_def by (rule set_takeWhileD [THEN conjunct2])
  then show False by simp
qed

lemma c_str_cut:
  assumes "NUL \<notin> set xs" "ys = [] \<or> hd ys = NUL"
  shows "c_str (xs @ ys) = xs"
proof -
  have "takeWhile (\<lambda>c. c \<noteq> NUL) ys = []"
    using assms(2) by (cases ys) auto
  moreover have "\<forall>x\<in>set xs. x \<noteq> NUL"
    using assms(1) by auto
  ultimately show ?thesis
    by (simp add: c_str_def)
qed

lemma c_str_reset: "c_str (buf[0 := NUL]) = []"
  by (cases buf) (simp_all add: c_str_def)

lemma c_str_stored:
  assumes "strlen msg < MAX_TASK_NAME_LEN"
  shows "c_str ((strncpy buf msg (MAX_TASK_NAME_LEN - Suc 0))[MAX_TASK_NAME_LEN - Suc 0 := NUL])
         = c_str msg"
proof -
  let ?s = "c_str msg"
  let ?pad = "replicate (31 - length ?s) NUL @ drop 31 buf"
  have len: "length ?s \<le> 31"
    using assms by (simp add: strlen_def MAX_TASK_NAME_LEN_def)
  have "(strncpy buf msg 31)[31 := NUL] = ?s @ ?pad[31 - length ?s := NUL]"
    using len by (simp add: strncpy_def strlen_def list_update_append)
  moreover have "?pad[31 - length ?s := NUL] = [] \<or> hd (?pad[31 - length ?s := NUL]) = NUL"
  proof (cases "length ?s = 31")
    case True
    then show ?thesis by (cases "drop 31 buf") simp_all
  next
    case False
    then obtain k where "31 - length ?s = Suc k"
      using len by (metis Suc_diff_Suc le_neq_implies_less)
    then show ?thesis by simp
  qed
  ultimately show ?thesis
    using c_str_cut [OF NUL_notin_c_str] by (simp add: MAX_TASK_NAME_LEN_def)
qed

lemma nth_stored:
  assumes "strlen msg < MAX_TASK_NAME_LEN" "length buf = MAX_TASK_NAME_LEN"
  shows "((strncpy buf msg (MAX_TASK_NAME_LEN - Suc 0))[MAX_TASK_NAME_LEN - Suc 0 := NUL])
           ! (MAX_TASK_NAME_LEN - Suc 0) = NUL"
  using assms by (simp add: strncpy_def strlen_def MAX_TASK_NAME_LEN_def)

text \<open>The three ways a message is handled.\<close>

lemma handler_header:
  "strstr msg '' -'' \<noteq> None \<Longrightarrow>
   twdt_msg_handler msg g =
     g\<lparr>capturing_task_name := True, failed_task_name := (failed_task_name g)[0 := NUL]\<rparr>"
  by (simp add: twdt_msg_handler_def)

lemma handler_terminator:
  "strstr msg '' -'' = None \<Longrightarrow> strstr msg ''(CPU'' \<noteq> None \<Longrightarrow>
   twdt_msg_handler msg g = g\<lparr>capturing_task_name := False\<rparr>"
  by (auto simp: twdt_msg_handler_def)

lemma handler_detail:
  "strstr msg '' -'' = None \<Longrightarrow> strstr msg ''(CPU'' = None \<Longrightarrow>
   twdt_msg_handler msg g =
     (if capturing_task_name g \<and> strlen msg < MAX_TASK_NAME_LEN
      then g\<lparr>failed_task_name :=
               (strncpy (failed_task_name g) msg (MAX_TASK_NAME_LEN - 1))
                 [MAX_TASK_NAME_LEN - 1 := NUL],
             task_name_captured := True\<rparr>
      else g)"
  by (simp add: twdt_msg_handler_def)

lemma sample_lines:
  "strstr '' -'' '' -'' \<noteq> None"
  "strstr '' - test_user'' '' -'' \<noteq> None"
  "strstr ''test_user'' '' -'' = None"
  "strstr ''test_user'' ''(CPU'' = None"
  "strlen ''test_user'' < MAX_TASK_NAME_LEN"
  "c_str ''test_user'' = ''test_user''"
  "strstr ''0x400d1234 (CPU 0)'' '' -'' = None"
  "strstr ''0x400d1234 (CPU 0)'' ''(CPU'' \<noteq> None"
  by code_simp+

section \<open>Attribution of a report\<close>

text \<open>
  C1, as the claim states it, fails: for the two report lines \<open>" - test_user"\<close> and
  \<open>"0x400d1234 (CPU 0)"\<close> the handler takes the first line as a header only and returns
  before looking for a name, and the second line ends the entry. Nothing is captured.
\<close>

theorem two_line_report_counterexample:
  "\<not> (captured (attribute ['' - test_user'', ''0x400d1234 (CPU 0)''] initial_globals) \<and>
      name (attribute ['' - test_user'', ''0x400d1234 (CPU 0)''] initial_globals)
        = ''test_user'')"
  by code_simp

text \<open>
  C1, amended: when the name arrives as a line of its own between the header and the
  terminator, that is for the three lines \<open>" -"\<close>, \<open>"test_user"\<close>, \<open>"0x400d1234 (CPU 0)"\<close>,
  the result is \<open>captured = true\<close> and \<open>name = "test_user"\<close>, from any earlier state of the
  globals. For the two lines of the claim the result is \<open>captured = false\<close> with an empty
  name.
\<close>

theorem attribute_name_on_own_line:
  "captured (attribute ['' -'', ''test_user'', ''0x400d1234 (CPU 0)''] g) \<and>
   name (attribute ['' -'', ''test_user'', ''0x400d1234 (CPU 0)''] g) = ''test_user'' \<and>
   \<not> captured (attribute ['' - test_user'', ''0x400d1234 (CPU 0)''] g) \<and>
   name (attribute ['' - test_user'', ''0x400d1234 (CPU 0)''] g) = []"
  by (simp add: attribute_def print_triggered_tasks_def reset_capture_def captured_def
      name_def handler_header [OF sample_lines(1)] handler_header [OF sample_lines(2)]
      handler_detail [OF sample_lines(3,4)] handler_terminator [OF sample_lines(7,8)]
      sample_lines(5,6) c_str_stored c_str_reset)

section \<open>Facts about the message handler\<close>

lemma line_kinds: "is_header l \<or> is_terminator l \<or> is_detail l"
  by (auto simp: is_header_def is_terminator_def is_detail_def)

lemma handler_is_header:
  "is_header msg \<Longrightarrow>
   twdt_msg_handler msg g =
     g\<lparr>capturing_task_name := True, failed_task_name := (failed_task_name g)[0 := NUL]\<rparr>"
  by (simp add: is_header_def handler_header)

lemma handler_is_terminator:
  "is_terminator msg \<Longrightarrow> twdt_msg_handler msg g = g\<lparr>capturing_task_name := False\<rparr>"
  by (simp add: is_terminator_def handler_terminator)

lemma handler_is_detail:
  "is_detail msg \<Longrightarrow>
   twdt_msg_handler msg g =
     (if capturing_task_name g \<and> strlen msg < MAX_TASK_NAME_LEN
      then g\<lparr>failed_task_name :=
               (strncpy (failed_task_name g) msg (MAX_TASK_NAME_LEN - 1))
                 [MAX_TASK_NAME_LEN - 1 := NUL],
             task_name_captured := True\<rparr>
      else g)"
  by (simp add: is_detail_def handler_detail)

lemma handler_strlen:
  assumes "strlen (failed_task_name g) < MAX_TASK_NAME_LEN"
  shows "strlen (failed_task_name (twdt_msg_handler msg g)) < MAX_TASK_NAME_LEN"
proof -
  consider "is_header msg" | "is_terminator msg" | "is_detail msg"
    using line_kinds by blast
  then show ?thesis
  proof cases
    case 1
    then show ?thesis
      by (simp add: handler_is_header strlen_def c_str_reset MAX_TASK_NAME_LEN_def)
  next
    case 2
    then show ?thesis
      using assms by (simp add: handler_is_terminator)
  next
    case 3
    then show ?thesis
      using assms by (simp add: handler_is_detail strlen_def c_str_stored)
  qed
qed

lemma report_strlen:
  "strlen (failed_task_name g) < MAX_TASK_NAME_LEN \<Longrightarrow>
   strlen (failed_task_name (print_triggered_tasks report g)) < MAX_TASK_NAME_LEN"
  unfolding print_triggered_tasks_def
  by (induction report arbitrary: g) (simp_all add: handler_strlen)

lemma length_strncpy:
  assumes "strlen msg < MAX_TASK_NAME_LEN" "length buf = MAX_TASK_NAME_LEN"
  shows "length (strncpy buf msg (MAX_TASK_NAME_LEN - Suc 0)) = MAX_TASK_NAME_LEN"
  using assms by (simp add: strncpy_def strlen_def MAX_TASK_NAME_LEN_def)

lemma handler_length:
  assumes "length (failed_task_name g) = MAX_TASK_NAME_LEN"
  shows "length (failed_task_name (twdt_msg_handler msg g)) = MAX_TASK_NAME_LEN"
proof -
  consider "is_header msg" | "is_terminator msg" | "is_detail msg"
    using line_kinds by blast
  then show ?thesis
    using assms
    by cases (simp_all add: handler_is_header handler_is_terminator handler_is_detail length_strncpy)
qed

lemma long_line_skipped:
  assumes "\<not> is_header msg" "MAX_TASK_NAME_LEN \<le> strlen msg"
  shows "failed_task_name (twdt_msg_handler msg g) = failed_task_name g"
    and "task_name_captured (twdt_msg_handler msg g) = task_name_captured g"
  using assms line_kinds [of msg]
  by (auto simp: handler_is_terminator handler_is_detail)

section \<open>Detail lines and the length limit\<close>

text \<open>
  C9: whenever a report has been attributed and \<open>captured\<close> is true, the stored name is
  shorter than \<open>MAX_TASK_NAME_LEN\<close>. A line of \<open>MAX_TASK_NAME_LEN\<close> characters or more that
  is not a header is skipped: the handler leaves the buffer and the capture flag as they
  were. So a complete entry whose only detail line is that long leaves \<open>captured\<close> false.
\<close>

theorem captured_name_below_limit:
  "(captured (attribute report g) \<longrightarrow>
      length (name (attribute report g)) < MAX_TASK_NAME_LEN) \<and>
   (\<not> is_header d \<and> MAX_TASK_NAME_LEN \<le> strlen d \<longrightarrow>
      failed_task_name (twdt_msg_handler d g) = failed_task_name g \<and>
      task_name_captured (twdt_msg_handler d g) = task_name_captured g) \<and>
   (is_header h \<and> is_detail d \<and> MAX_TASK_NAME_LEN \<le> strlen d \<and> is_terminator t \<longrightarrow>
      \<not> captured (attribute [h, d, t] g))"
proof (intro conjI impI)
  have "strlen (failed_task_name (reset_capture g)) < MAX_TASK_NAME_LEN"
    by (simp add: reset_capture_def strlen_def c_str_reset MAX_TASK_NAME_LEN_def)
  then show "length (name (attribute report g)) < MAX_TASK_NAME_LEN"
    using report_strlen by (simp add: attribute_def name_def strlen_def)
next
  assume "\<not> is_header d \<and> MAX_TASK_NAME_LEN \<le> strlen d"
  then show "failed_task_name (twdt_msg_handler d g) = failed_task_name g"
    and "task_name_captured (twdt_msg_handler d g) = task_name_captured g"
    by (simp_all add: long_line_skipped)
next
  assume "is_header h \<and> is_detail d \<and> MAX_TASK_NAME_LEN \<le> strlen d \<and> is_terminator t"
  then show "\<not> captured (attribute [h, d, t] g)"
    by (simp add: attribute_def print_triggered_tasks_def captured_def reset_capture_def
        handler_is_header handler_is_terminator handler_is_detail)
qed

lemma long_line:
  "is_header '' -''"
  "is_detail ''a_task_name_of_more_than_31_characters''"
  "MAX_TASK_NAME_LEN \<le> strlen ''a_task_name_of_more_than_31_characters''"
  "is_terminator ''0x400d1234 (CPU 0)''"
  by code_simp+

text \<open>
  C9 at concrete inputs: the report of \<open>test_user\<close>, and a detail line of 38 characters.
\<close>

theorem captured_name_below_limit_witness:
  "captured (attribute ['' -'', ''test_user'', ''0x400d1234 (CPU 0)''] initial_globals) \<and>
   length (name (attribute ['' -'', ''test_user'', ''0x400d1234 (CPU 0)''] initial_globals))
     < MAX_TASK_NAME_LEN \<and>
   \<not> is_header ''a_task_name_of_more_than_31_characters'' \<and>
   MAX_TASK_NAME_LEN \<le> strlen ''a_task_name_of_more_than_31_characters'' \<and>
   failed_task_name
     (twdt_msg_handler ''a_task_name_of_more_than_31_characters'' initial_globals)
     = failed_task_name initial_globals \<and>
   is_header '' -'' \<and> is_detail ''a_task_name_of_more_than_31_characters'' \<and>
   is_terminator ''0x400d1234 (CPU 0)'' \<and>
   \<not> captured (attribute ['' -'', ''a_task_name_of_more_than_31_characters'',
                  ''0x400d1234 (CPU 0)''] initial_globals)"
proof -
  have c: "captured (attribute ['' -'', ''test_user'', ''0x400d1234 (CPU 0)''] initial_globals)"
    by code_simp
  have nh: "\<not> is_header ''a_task_name_of_more_than_31_characters''"
    by code_simp
  note t = captured_name_below_limit
    [of "['' -'', ''test_user'', ''0x400d1234 (CPU 0)'']" initial_globals
        "''a_task_name_of_more_than_31_characters''" "'' -''" "''0x400d1234 (CPU 0)''"]
  show ?thesis
    using t c nh long_line by simp
qed

text \<open>
  C3, as the claim states it, fails: a detail line of 34 characters between a header and a
  terminator is not captured in truncated form. Nothing is captured, and the stored name
  is not the line cut to 31 characters.
\<close>

theorem long_detail_line_counterexample:
  "is_header '' -'' \<and> is_detail ''a_unit_name_that_exceeds_the_limit'' \<and>
   is_terminator ''0x400d1234 (CPU 0)'' \<and>
   \<not> captured (attribute ['' -'', ''a_unit_name_that_exceeds_the_limit'',
                  ''0x400d1234 (CPU 0)''] initial_globals) \<and>
   name (attribute ['' -'', ''a_unit_name_that_exceeds_the_limit'',
           ''0x400d1234 (CPU 0)''] initial_globals)
     \<noteq> take (MAX_TASK_NAME_LEN - 1) ''a_unit_name_that_exceeds_the_limit''"
  by code_simp

text \<open>
  C3, amended: for a detail line handled while capturing, with the buffer at its declared
  size. A line shorter than \<open>MAX_TASK_NAME_LEN\<close> is recorded unchanged as the name and
  \<open>captured\<close> is set; the buffer keeps its size and its last byte is NUL. A line of
  \<open>MAX_TASK_NAME_LEN\<close> characters or more is not captured: the handler changes nothing.
\<close>

theorem detail_line_stored_or_skipped:
  assumes "capturing_task_name g" and "is_detail msg"
    and "length (failed_task_name g) = MAX_TASK_NAME_LEN"
  shows "if strlen msg < MAX_TASK_NAME_LEN
         then captured (twdt_msg_handler msg g) \<and>
              name (twdt_msg_handler msg g) = c_str msg \<and>
              length (failed_task_name (twdt_msg_handler msg g)) = MAX_TASK_NAME_LEN \<and>
              failed_task_name (twdt_msg_handler msg g) ! (MAX_TASK_NAME_LEN - 1) = NUL
         else twdt_msg_handler msg g = g"
proof (cases "strlen msg < MAX_TASK_NAME_LEN")
  case True
  have "twdt_msg_handler msg g =
          g\<lparr>failed_task_name :=
              (strncpy (failed_task_name g) msg (MAX_TASK_NAME_LEN - Suc 0))
                [MAX_TASK_NAME_LEN - Suc 0 := NUL],
            task_name_captured := True\<rparr>"
    using assms(1,2) True by (simp add: handler_is_detail)
  then show ?thesis
    using True assms(3)
    by (simp add: captured_def name_def c_str_stored length_strncpy nth_stored)
next
  case False
  then show ?thesis
    using assms(2) by (simp add: handler_is_detail)
qed

text \<open>
  C3, amended, at concrete inputs: after the header \<open>" -"\<close>, the line \<open>"test_user"\<close> is
  stored and a line of 34 characters is skipped.
\<close>

theorem detail_line_stored_or_skipped_witness:
  "captured (twdt_msg_handler ''test_user'' (twdt_msg_handler '' -'' initial_globals)) \<and>
   name (twdt_msg_handler ''test_user'' (twdt_msg_handler '' -'' initial_globals))
     = ''test_user'' \<and>
   twdt_msg_handler ''a_unit_name_that_exceeds_the_limit''
     (twdt_msg_handler '' -'' initial_globals)
     = twdt_msg_handler '' -'' initial_globals"
proof -
  let ?g = "twdt_msg_handler '' -'' initial_globals"
  have c: "capturing_task_name ?g" by code_simp
  have l: "length (failed_task_name ?g) = MAX_TASK_NAME_LEN" by code_simp
  have d1: "is_detail ''test_user''" by code_simp
  have d2: "is_detail ''a_unit_name_that_exceeds_the_limit''" by code_simp
  have s1: "strlen ''test_user'' < MAX_TASK_NAME_LEN" by code_simp
  have s2: "\<not> strlen ''a_unit_name_that_exceeds_the_limit'' < MAX_TASK_NAME_LEN" by code_simp
  have n: "c_str ''test_user'' = ''test_user''" by code_simp
  show ?thesis
    using detail_line_stored_or_skipped [OF c d1 l] detail_line_stored_or_skipped [OF c d2 l]
    by (simp only: s1 s2 n if_True if_False)
qed

section \<open>The recovery cycle\<close>

lemma handler_frame:
  "g_watchdog_timeout_occurred (twdt_msg_handler msg g) = g_watchdog_timeout_occurred g"
  "event_group (twdt_msg_handler msg g) = event_group g"
  "twdt_user_handle (twdt_msg_handler msg g) = twdt_user_handle g"
  "twdt_user_2_handle (twdt_msg_handler msg g) = twdt_user_2_handle g"
  by (simp_all add: twdt_msg_handler_def Let_def)

lemma report_frame:
  "g_watchdog_timeout_occurred (print_triggered_tasks report g) = g_watchdog_timeout_occurred g"
  "event_group (print_triggered_tasks report g) = event_group g"
  unfolding print_triggered_tasks_def
  by (induction report arbitrary: g) (simp_all add: handler_frame)

lemma attribute_frame:
  "g_watchdog_timeout_occurred (attribute report g) = g_watchdog_timeout_occurred g"
  "event_group (attribute report g) = event_group g"
  by (simp_all add: attribute_def report_frame reset_capture_def)

lemma report_without_header_idle:
  assumes "\<forall>l\<in>set report. \<not> is_header l"
    and "\<not> capturing_task_name g" and "\<not> task_name_captured g"
  shows "\<not> capturing_task_name (print_triggered_tasks report g) \<and>
         \<not> task_name_captured (print_triggered_tasks report g)"
  using assms unfolding print_triggered_tasks_def
proof (induction report arbitrary: g)
  case Nil
  then show ?case by simp
next
  case (Cons l report)
  from Cons.prems(1) have "is_terminator l \<or> is_detail l"
    using line_kinds [of l] by simp
  then have "\<not> capturing_task_name (twdt_msg_handler l g) \<and>
             \<not> task_name_captured (twdt_msg_handler l g)"
    using Cons.prems(2,3) by (auto simp: handler_is_terminator handler_is_detail)
  then show ?case
    using Cons.IH [of "twdt_msg_handler l g"] Cons.prems(1) by simp
qed

text \<open>
  C2, as the claim states it, fails: the report \<open>" -"\<close>, \<open>"test_user"\<close> has no line with
  the \<open>"(CPU"\<close> marker, yet the name is captured, and the cycle that follows runs the
  action of \<open>test_user\<close>, not an unattributed one.
\<close>

theorem report_without_terminator_counterexample:
  "strstr '' -'' ''(CPU'' = None \<and> strstr ''test_user'' ''(CPU'' = None \<and>
   captured (attribute ['' -'', ''test_user''] initial_globals) \<and>
   snd (recovery_cycle RECOVERY_ACTIVE_BIT ['' -'', ''test_user'']
          (initial_globals\<lparr>g_watchdog_timeout_occurred := True\<rparr>))
     = [ESP_LOGI ''----------------A---------------------'' [],
        Esp_task_wdt_print_triggered_tasks,
        ESP_LOGI ''----------------B---------------------'' [],
        ESP_LOGE ''Custom TWDT handler was invoked! Task failed to reset the watchdog in time.'' [],
        ESP_LOGE ''Performing recovery actions...'' [],
        ESP_LOGI ''test_user failed, taking specific recovery action...'' []]
       @ blink STATUS_LED 10
       @ [ESP_LOGI ''Recovery complete'' [], VTaskDelay_ms 100]"
  by code_simp

text \<open>
  C2, amended: if no line of the report contains the header marker \<open>" -"\<close>, then after the
  report \<open>captured\<close> is false, and the cycle completes with no recovery action of its own:
  when the wake bit and the flag are set it clears the flag and only logs, otherwise it
  does nothing after the report. Either way it ends with the delay; it cannot abort.
\<close>

theorem report_without_header:
  assumes "\<forall>l\<in>set report. \<not> is_header l"
  shows "\<not> captured (attribute report g) \<and>
         recovery_cycle bits report g =
           (if bits AND RECOVERY_ACTIVE_BIT \<noteq> 0 \<and> g_watchdog_timeout_occurred g
            then ((attribute report g)\<lparr>g_watchdog_timeout_occurred := False\<rparr>,
                  [ESP_LOGI ''----------------A---------------------'' [],
                   Esp_task_wdt_print_triggered_tasks,
                   ESP_LOGI ''----------------B---------------------'' [],
                   ESP_LOGE ''Custom TWDT handler was invoked! Task failed to reset the watchdog in time.'' [],
                   ESP_LOGE ''Performing recovery actions...'' [],
                   ESP_LOGI ''Recovery complete'' [],
                   VTaskDelay_ms 100])
            else (attribute report g,
                  [ESP_LOGI ''----------------A---------------------'' [],
                   Esp_task_wdt_print_triggered_tasks,
                   ESP_LOGI ''----------------B---------------------'' [],
                   VTaskDelay_ms 100]))"
proof -
  have nc: "\<not> task_name_captured (attribute report g)"
    using report_without_header_idle [OF assms, of "reset_capture g"]
    by (simp add: attribute_def reset_capture_def)
  then have "recovery_action (attribute report g) = []"
    by (simp add: recovery_action_def)
  then show ?thesis
    using nc
    by (simp add: captured_def recovery_cycle_def recovery_diagnose_def recovery_dispatch_def
        attribute_frame)
qed

text \<open>
  C2, amended, at a concrete input: a report of a terminator line only, with the flag set
  and the wake bit returned by the wait.
\<close>

theorem report_without_header_witness:
  "\<not> is_header ''0x400d1234 (CPU 0)'' \<and>
   \<not> captured (attribute [''0x400d1234 (CPU 0)'']
                 (initial_globals\<lparr>g_watchdog_timeout_occurred := True\<rparr>)) \<and>
   snd (recovery_cycle RECOVERY_ACTIVE_BIT [''0x400d1234 (CPU 0)'']
          (initial_globals\<lparr>g_watchdog_timeout_occurred := True\<rparr>))
     = [ESP_LOGI ''----------------A---------------------'' [],
        Esp_task_wdt_print_triggered_tasks,
        ESP_LOGI ''----------------B---------------------'' [],
        ESP_LOGE ''Custom TWDT handler was invoked! Task failed to reset the watchdog in time.'' [],
        ESP_LOGE ''Performing recovery actions...'' [],
        ESP_LOGI ''Recovery complete'' [],
        VTaskDelay_ms 100]"
proof -
  have h: "\<forall>l\<in>set [''0x400d1234 (CPU 0)'']. \<not> is_header l"
    by code_simp
  have nh: "\<not> is_header ''0x400d1234 (CPU 0)''"
    by code_simp
  have b: "RECOVERY_ACTIVE_BIT AND RECOVERY_ACTIVE_BIT \<noteq> 0"
    by (simp add: RECOVERY_ACTIVE_BIT_def)
  show ?thesis
    using report_without_header [OF h, of "initial_globals\<lparr>g_watchdog_timeout_occurred := True\<rparr>"
        RECOVERY_ACTIVE_BIT] nh b
    by simp
qed

text \<open>
  C5, as the claim states it, fails for \<open>watchdog_multi_task.c\<close>: with the wake bit set
  and the flag clear, the iteration still requests the report and resets the capture
  state (\<open>task_name_captured\<close>, left true by an earlier cycle, becomes false).
\<close>

theorem spurious_wake_counterexample:
  "\<not> g_watchdog_timeout_occurred
       (initial_globals\<lparr>event_group := Some RECOVERY_ACTIVE_BIT, task_name_captured := True\<rparr>) \<and>
   recovery_task []
       (initial_globals\<lparr>event_group := Some RECOVERY_ACTIVE_BIT, task_name_captured := True\<rparr>)
     = Some (initial_globals\<lparr>event_group := Some 0, task_name_captured := False\<rparr>,
             [XEventGroupWaitBits RECOVERY_ACTIVE_BIT,
              ESP_LOGI ''----------------A---------------------'' [],
              Esp_task_wdt_print_triggered_tasks,
              ESP_LOGI ''----------------B---------------------'' [],
              VTaskDelay_ms 100])"
  by code_simp

lemma dispatch_flag_clear:
  assumes "\<not> g_watchdog_timeout_occurred g"
  shows "recovery_dispatch bits g = (g, [VTaskDelay_ms 100])"
    and "main_recovery_dispatch bits g = (g, [VTaskDelay_ms 100])"
  using assms by (simp_all add: recovery_dispatch_def main_recovery_dispatch_def)

lemma step_keeps_flag_clear:
  assumes "\<not> g_watchdog_timeout_occurred g" and "\<not> is_isr e" and "step e g = Some g'"
  shows "\<not> g_watchdog_timeout_occurred g'"
proof (cases e)
  case (Isr woken)
  then show ?thesis using assms(2) by simp
next
  case (Msg msg)
  then show ?thesis using assms(1,3) handler_frame(1) by auto
next
  case Recovery_wait
  then show ?thesis
    using assms(1,3) by (auto split: option.splits wait_result.splits)
next
  case Recovery_reset
  then show ?thesis using assms(1,3) by (auto simp: reset_capture_def)
next
  case (Recovery_dispatch bits)
  then show ?thesis using assms(1,3) by (auto simp: dispatch_flag_clear)
next
  case (Main_recovery_dispatch bits)
  then show ?thesis using assms(1,3) by (auto simp: dispatch_flag_clear)
next
  case (App_main created err)
  then show ?thesis
    using assms(1,3) by (auto simp: app_main_def split: option.splits)
next
  case (Main_app_main created err)
  then show ?thesis
    using assms(1,3) by (auto simp: main_app_main_def split: option.splits)
next
  case (Test_task_register err h)
  then show ?thesis
    using assms(1,3) by (auto simp: test_task_register_def split: if_splits)
next
  case (Test_2_task_register err h)
  then show ?thesis
    using assms(1,3) by (auto simp: test_2_task_register_def split: if_splits)
next
  case (Test_task err counter)
  then show ?thesis
    using assms(1,3) by (auto simp: test_task_def)
next
  case (Test_2_task err counter)
  then show ?thesis
    using assms(1,3) by (auto simp: test_2_task_def)
qed

lemma run_keeps_flag_clear:
  assumes "\<not> g_watchdog_timeout_occurred g" and "\<forall>e\<in>set es. \<not> is_isr e"
    and "run es g = Some g'"
  shows "\<not> g_watchdog_timeout_occurred g'"
  using assms
proof (induction es arbitrary: g)
  case Nil
  then show ?case by simp
next
  case (Cons e es)
  from Cons.prems(3) obtain g1 where g1: "step e g = Some g1" and rest: "run es g1 = Some g'"
    by (auto split: option.splits)
  have "\<not> g_watchdog_timeout_occurred g1"
    using step_keeps_flag_clear [OF Cons.prems(1) _ g1] Cons.prems(2) by simp
  then show ?case
    using Cons.IH [OF _ _ rest] Cons.prems(2) by simp
qed

lemma run_append: "run (es @ fs) g = (case run es g of None \<Rightarrow> None | Some g' \<Rightarrow> run fs g')"
  by (induction es arbitrary: g) (simp_all split: option.splits)

lemma run_messages: "run (map Msg report) g = Some (print_triggered_tasks report g)"
  unfolding print_triggered_tasks_def
  by (induction report arbitrary: g) simp_all

lemma diagnosis_as_run:
  "run (Recovery_reset # map Msg report) g = Some (attribute report g)"
  by (simp add: run_messages attribute_def)

text \<open>
  An interrupt between the wake and the test of the flag: the iteration that woke with the
  flag clear finds it set and runs the action of \<open>test_user\<close>.
\<close>

lemma interrupt_before_flag_test:
  "\<not> g_watchdog_timeout_occurred (initial_globals\<lparr>event_group := Some RECOVERY_ACTIVE_BIT\<rparr>) \<and>
   map_option (\<lambda>g. snd (recovery_dispatch RECOVERY_ACTIVE_BIT g))
     (run [Recovery_wait, Recovery_reset, Msg '' -'', Isr True, Msg ''test_user'',
           Msg ''0x400d1234 (CPU 0)'']
        (initial_globals\<lparr>event_group := Some RECOVERY_ACTIVE_BIT\<rparr>))
     = Some ([ESP_LOGE ''Custom TWDT handler was invoked! Task failed to reset the watchdog in time.'' [],
              ESP_LOGE ''Performing recovery actions...'' [],
              ESP_LOGI ''test_user failed, taking specific recovery action...'' []]
             @ blink STATUS_LED 10
             @ [ESP_LOGI ''Recovery complete'' [], VTaskDelay_ms 100])"
  by code_simp

text \<open>
  C5, amended: if the flag is clear when the recovery task tests it, no recovery action is
  dispatched: the globals stay as they are, the flag stays clear and the only call is the
  final delay, in both files. The flag is clear at the test when it was clear at the wake
  and no interrupt has run since, whatever other steps have. In \<open>watchdog_multi_task.c\<close>
  the reset of the capture state and the report come before the test and happen whatever
  the flag is; an iteration that wakes with the flag clear and is not interrupted makes
  the two log calls, the request of the report and the delay, and no other call.
\<close>

theorem spurious_wake:
  "(\<not> g_watchdog_timeout_occurred g
      \<longrightarrow> recovery_dispatch bits g = (g, [VTaskDelay_ms 100]) \<and>
          main_recovery_dispatch bits g = (g, [VTaskDelay_ms 100])) \<and>
   (\<not> g_watchdog_timeout_occurred g \<and> (\<forall>e\<in>set es. \<not> is_isr e) \<and> run es g = Some g'
      \<longrightarrow> \<not> g_watchdog_timeout_occurred g' \<and>
          recovery_dispatch bits g' = (g', [VTaskDelay_ms 100]) \<and>
          main_recovery_dispatch bits g' = (g', [VTaskDelay_ms 100])) \<and>
   run (Recovery_reset # map Msg report) g = Some (attribute report g) \<and>
   (\<not> g_watchdog_timeout_occurred g
      \<longrightarrow> recovery_cycle bits report g =
            (attribute report g,
             [ESP_LOGI ''----------------A---------------------'' [],
              Esp_task_wdt_print_triggered_tasks,
              ESP_LOGI ''----------------B---------------------'' [],
              VTaskDelay_ms 100]) \<and>
          \<not> g_watchdog_timeout_occurred (attribute report g))"
proof (intro conjI impI)
  assume "\<not> g_watchdog_timeout_occurred g"
  then show "recovery_dispatch bits g = (g, [VTaskDelay_ms 100])"
    and "main_recovery_dispatch bits g = (g, [VTaskDelay_ms 100])"
    by (rule dispatch_flag_clear)+
next
  assume "\<not> g_watchdog_timeout_occurred g \<and> (\<forall>e\<in>set es. \<not> is_isr e) \<and> run es g = Some g'"
  then show clear: "\<not> g_watchdog_timeout_occurred g'"
    using run_keeps_flag_clear by blast
  then show "recovery_dispatch bits g' = (g', [VTaskDelay_ms 100])"
    and "main_recovery_dispatch bits g' = (g', [VTaskDelay_ms 100])"
    by (rule dispatch_flag_clear)+
next
  show "run (Recovery_reset # map Msg report) g = Some (attribute report g)"
    by (rule diagnosis_as_run)
next
  assume "\<not> g_watchdog_timeout_occurred g"
  then show "recovery_cycle bits report g =
     (attribute report g,
      [ESP_LOGI ''----------------A---------------------'' [],
       Esp_task_wdt_print_triggered_tasks,
       ESP_LOGI ''----------------B---------------------'' [],
       VTaskDelay_ms 100])"
    and "\<not> g_watchdog_timeout_occurred (attribute report g)"
    by (simp_all add: recovery_cycle_def recovery_diagnose_def recovery_dispatch_def
        attribute_frame)
qed

text \<open>
  C5, amended, at a concrete input: a wake with the flag clear, then the reset, three
  messages of a report and a test task iteration, with no interrupt.
\<close>

theorem spurious_wake_witness:
  "\<not> g_watchdog_timeout_occurred (initial_globals\<lparr>event_group := Some RECOVERY_ACTIVE_BIT\<rparr>) \<and>
   map_option g_watchdog_timeout_occurred
     (run [Recovery_wait, Recovery_reset, Msg '' -'', Test_task 0 0, Msg ''test_user'',
           Msg ''0x400d1234 (CPU 0)'']
        (initial_globals\<lparr>event_group := Some RECOVERY_ACTIVE_BIT\<rparr>)) = Some False \<and>
   map_option (\<lambda>g. snd (recovery_dispatch RECOVERY_ACTIVE_BIT g))
     (run [Recovery_wait, Recovery_reset, Msg '' -'', Test_task 0 0, Msg ''test_user'',
           Msg ''0x400d1234 (CPU 0)'']
        (initial_globals\<lparr>event_group := Some RECOVERY_ACTIVE_BIT\<rparr>))
     = Some [VTaskDelay_ms 100] \<and>
   main_recovery_dispatch RECOVERY_ACTIVE_BIT (initial_globals\<lparr>event_group := Some 0\<rparr>)
     = (initial_globals\<lparr>event_group := Some 0\<rparr>, [VTaskDelay_ms 100]) \<and>
   snd (recovery_cycle RECOVERY_ACTIVE_BIT ['' -'', ''test_user'', ''0x400d1234 (CPU 0)'']
          (initial_globals\<lparr>event_group := Some 0\<rparr>))
     = [ESP_LOGI ''----------------A---------------------'' [],
        Esp_task_wdt_print_triggered_tasks,
        ESP_LOGI ''----------------B---------------------'' [],
        VTaskDelay_ms 100]"
proof -
  let ?g = "initial_globals\<lparr>event_group := Some RECOVERY_ACTIVE_BIT\<rparr>"
  let ?h = "initial_globals\<lparr>event_group := Some 0\<rparr>"
  let ?es = "[Recovery_wait, Recovery_reset, Msg '' -'', Test_task 0 0, Msg ''test_user'',
              Msg ''0x400d1234 (CPU 0)'']"
  have f: "\<not> g_watchdog_timeout_occurred ?g" and fh: "\<not> g_watchdog_timeout_occurred ?h"
    by (simp_all add: initial_globals_def)
  have ni: "\<forall>e\<in>set ?es. \<not> is_isr e"
    by simp
  have "run ?es ?g \<noteq> None"
    by code_simp
  then obtain g' where r: "run ?es ?g = Some g'"
    by auto
  have "\<not> g_watchdog_timeout_occurred g' \<and>
        recovery_dispatch RECOVERY_ACTIVE_BIT g' = (g', [VTaskDelay_ms 100])"
    using spurious_wake [of ?g RECOVERY_ACTIVE_BIT ?es g'] f ni r by blast
  then have a: "map_option g_watchdog_timeout_occurred (run ?es ?g) = Some False"
    and b: "map_option (\<lambda>g. snd (recovery_dispatch RECOVERY_ACTIVE_BIT g)) (run ?es ?g)
              = Some [VTaskDelay_ms 100]"
    using r by simp_all
  have c: "main_recovery_dispatch RECOVERY_ACTIVE_BIT ?h = (?h, [VTaskDelay_ms 100])"
    using spurious_wake [of ?h RECOVERY_ACTIVE_BIT] fh by blast
  have d: "recovery_cycle RECOVERY_ACTIVE_BIT ['' -'', ''test_user'', ''0x400d1234 (CPU 0)''] ?h =
     (attribute ['' -'', ''test_user'', ''0x400d1234 (CPU 0)''] ?h,
      [ESP_LOGI ''----------------A---------------------'' [],
       Esp_task_wdt_print_triggered_tasks,
       ESP_LOGI ''----------------B---------------------'' [],
       VTaskDelay_ms 100])"
    using spurious_wake [of ?h RECOVERY_ACTIVE_BIT _ _
        "['' -'', ''test_user'', ''0x400d1234 (CPU 0)'']"] fh by blast
  show ?thesis
    using f a b c d by simp
qed

section \<open>Reports with several entries\<close>

lemma details_fold:
  assumes "list_all is_detail ds" and "capturing_task_name g"
  shows "capturing_task_name (fold twdt_msg_handler ds g) \<and>
         task_name_captured (fold twdt_msg_handler ds g) =
           (task_name_captured g \<or> filter (\<lambda>d. strlen d < MAX_TASK_NAME_LEN) ds \<noteq> []) \<and>
         c_str (failed_task_name (fold twdt_msg_handler ds g)) =
           (case filter (\<lambda>d. strlen d < MAX_TASK_NAME_LEN) ds of
              [] \<Rightarrow> c_str (failed_task_name g)
            | f # fs \<Rightarrow> c_str (last (f # fs)))"
  using assms
proof (induction ds arbitrary: g)
  case Nil
  then show ?case by simp
next
  case (Cons d ds)
  let ?g1 = "twdt_msg_handler d g"
  have d: "is_detail d" and ds: "list_all is_detail ds"
    using Cons.prems(1) by simp_all
  have cap: "capturing_task_name ?g1"
    using Cons.prems(2) by (simp add: handler_is_detail [OF d])
  note IH = Cons.IH [OF ds cap]
  show ?case
  proof (cases "strlen d < MAX_TASK_NAME_LEN")
    case True
    then have "task_name_captured ?g1" and "c_str (failed_task_name ?g1) = c_str d"
      using Cons.prems(2) by (simp_all add: handler_is_detail [OF d] c_str_stored)
    then show ?thesis
      using IH True by (simp split: list.splits)
  next
    case False
    then have "?g1 = g"
      by (simp add: handler_is_detail [OF d])
    then show ?thesis
      using IH False by (simp split: list.splits)
  qed
qed

lemma idle_lines:
  assumes "\<not> capturing_task_name g" and "\<forall>l\<in>set ls. \<not> is_header l"
  shows "fold twdt_msg_handler ls g = g"
  using assms
proof (induction ls arbitrary: g)
  case Nil
  then show ?case by simp
next
  case (Cons l ls)
  from Cons.prems(2) have "is_terminator l \<or> is_detail l"
    using line_kinds [of l] by simp
  then have "twdt_msg_handler l g = g"
    using Cons.prems(1) by (auto simp: handler_is_terminator handler_is_detail)
  then show ?case
    using Cons.IH [of g] Cons.prems by simp
qed

lemma body_fold:
  assumes "capturing_task_name g" and "\<forall>l\<in>set ls. \<not> is_header l"
  shows "task_name_captured (fold twdt_msg_handler ls g) =
           (task_name_captured g \<or>
            filter (\<lambda>d. strlen d < MAX_TASK_NAME_LEN) (takeWhile is_detail ls) \<noteq> []) \<and>
         c_str (failed_task_name (fold twdt_msg_handler ls g)) =
           (case filter (\<lambda>d. strlen d < MAX_TASK_NAME_LEN) (takeWhile is_detail ls) of
              [] \<Rightarrow> c_str (failed_task_name g)
            | f # fs \<Rightarrow> c_str (last (f # fs)))"
proof -
  let ?ds = "takeWhile is_detail ls" and ?rest = "dropWhile is_detail ls"
  let ?g1 = "fold twdt_msg_handler ?ds g"
  have ds: "list_all is_detail ?ds"
    by (simp add: list_all_iff) (meson set_takeWhileD)
  have cap: "capturing_task_name ?g1"
    using details_fold [OF ds assms(1)] by simp
  have rest_nh: "\<forall>l\<in>set ?rest. \<not> is_header l"
    using assms(2) by (meson set_dropWhileD)
  have rest: "task_name_captured (fold twdt_msg_handler ?rest ?g1) = task_name_captured ?g1 \<and>
              failed_task_name (fold twdt_msg_handler ?rest ?g1) = failed_task_name ?g1"
  proof (cases ?rest)
    case Nil
    show ?thesis unfolding Nil by simp
  next
    case (Cons t ts)
    then have "\<not> is_detail t"
      by (metis hd_dropWhile list.distinct(1) list.sel(1))
    moreover have "\<not> is_header t" and ts: "\<forall>l\<in>set ts. \<not> is_header l"
      using rest_nh Cons by simp_all
    ultimately have "is_terminator t"
      using line_kinds [of t] by simp
    then have t: "twdt_msg_handler t ?g1 = ?g1\<lparr>capturing_task_name := False\<rparr>"
      by (rule handler_is_terminator)
    have "fold twdt_msg_handler ts (?g1\<lparr>capturing_task_name := False\<rparr>)
            = ?g1\<lparr>capturing_task_name := False\<rparr>"
      by (rule idle_lines) (simp_all add: ts)
    then show ?thesis
      using Cons t by simp
  qed
  have "fold twdt_msg_handler ls g = fold twdt_msg_handler ?rest ?g1"
    by (metis comp_apply fold_append takeWhile_dropWhile_id)
  then show ?thesis
    using rest details_fold [OF ds assms(1)] by simp
qed

lemma entries_empty: "entries ls = [] \<longleftrightarrow> (\<forall>l\<in>set ls. \<not> is_header l)"
  by (induction ls) auto

lemma takeWhile_not_header: "\<forall>l\<in>set (takeWhile (\<lambda>x. \<not> is_header x) ls). \<not> is_header l"
  using set_takeWhileD by fastforce

lemma entries_fold:
  assumes "entries ls \<noteq> []"
  shows "c_str (failed_task_name (fold twdt_msg_handler ls g)) =
           (case parsed_name (last (entries ls)) of None \<Rightarrow> [] | Some n \<Rightarrow> n) \<and>
         task_name_captured (fold twdt_msg_handler ls g) =
           (task_name_captured (fold twdt_msg_handler (takeWhile (\<lambda>x. \<not> is_header x) ls) g) \<or>
            list_ex (\<lambda>e. parsed_name e \<noteq> None) (entries ls))"
  using assms
proof (induction ls arbitrary: g)
  case Nil
  then show ?case by simp
next
  case (Cons l ls)
  let ?g1 = "twdt_msg_handler l g"
  let ?body = "takeWhile (\<lambda>x. \<not> is_header x) ls"
  show ?case
  proof (cases "is_header l")
    case False
    then have "entries ls \<noteq> []"
      using Cons.prems by simp
    then show ?thesis
      using Cons.IH [of ?g1] False by simp
  next
    case True
    have g1: "capturing_task_name ?g1" "task_name_captured ?g1 = task_name_captured g"
      "c_str (failed_task_name ?g1) = []"
      by (simp_all add: handler_is_header [OF True] c_str_reset)
    note body = body_fold [OF g1(1) takeWhile_not_header, of ls]
    have pn: "(parsed_name (l, ?body) \<noteq> None) =
                (filter (\<lambda>d. strlen d < MAX_TASK_NAME_LEN) (takeWhile is_detail ?body) \<noteq> [])"
      by (simp add: parsed_name_def split: list.splits)
    show ?thesis
    proof (cases "entries ls = []")
      case True
      then have nh: "\<forall>x\<in>set ls. \<not> is_header x"
        by (simp add: entries_empty)
      have ent: "entries (l # ls) = [(l, ls)]"
        using \<open>is_header l\<close> True nh by simp
      show ?thesis
        using body_fold [OF g1(1) nh] g1(2,3) \<open>is_header l\<close>
        by (simp add: ent parsed_name_def del: entries.simps split: list.splits)
    next
      case False
      then show ?thesis
        using Cons.IH [OF False, of ?g1] body g1(2) \<open>is_header l\<close> pn by auto
    qed
  qed
qed

text \<open>
  C4, amended: for every report, whatever stands before, between or after its groups, the
  result after the whole report is decided by the last group alone, that is by the last
  header line and the lines after it. The name is the one that group yields, and it is
  empty when that group yields none, since every header clears the buffer. \<open>captured\<close> is
  true exactly when some group of the report yields a name. Whatever earlier groups stored
  is overwritten. This covers the reports with two or more complete groups.
\<close>

theorem last_entry_decides_name:
  "name (attribute report g) =
     (case entries report of
        [] \<Rightarrow> []
      | e # es \<Rightarrow> (case parsed_name (last (e # es)) of None \<Rightarrow> [] | Some n \<Rightarrow> n)) \<and>
   captured (attribute report g) = list_ex (\<lambda>e. parsed_name e \<noteq> None) (entries report)"
proof (cases "entries report")
  case Nil
  then have nh: "\<forall>l\<in>set report. \<not> is_header l"
    by (simp add: entries_empty)
  have "fold twdt_msg_handler report (reset_capture g) = reset_capture g"
    by (rule idle_lines [OF _ nh]) (simp add: reset_capture_def)
  then show ?thesis
    using Nil
    by (simp add: name_def captured_def attribute_def print_triggered_tasks_def)
      (simp add: reset_capture_def c_str_reset)
next
  case (Cons e es)
  then have ne: "entries report \<noteq> []"
    by simp
  have "fold twdt_msg_handler (takeWhile (\<lambda>x. \<not> is_header x) report) (reset_capture g)
          = reset_capture g"
    by (rule idle_lines [OF _ takeWhile_not_header]) (simp add: reset_capture_def)
  then have "\<not> task_name_captured
      (fold twdt_msg_handler (takeWhile (\<lambda>x. \<not> is_header x) report) (reset_capture g))"
    by (simp add: reset_capture_def)
  then show ?thesis
    using entries_fold [OF ne, of "reset_capture g"] Cons
    by (simp add: name_def captured_def attribute_def print_triggered_tasks_def)
qed

text \<open>
  C4, amended, at a concrete input: a caption line, the complete groups of \<open>test_user\<close>
  and \<open>test_2_user\<close>, and an empty last line leave the name \<open>test_2_user\<close>.
\<close>

theorem last_entry_decides_name_witness:
  "entries [''Task watchdog got triggered. The following tasks/users did not reset the watchdog in time:'',
            '' -'', ''test_user'', ''0x400d1234 (CPU 0)'',
            '' -'', ''test_2_user'', ''0x400d5678 (CPU 1)'', '''']
     = [('' -'', [''test_user'', ''0x400d1234 (CPU 0)'']),
        ('' -'', [''test_2_user'', ''0x400d5678 (CPU 1)'', ''''])] \<and>
   complete_entry ('' -'', [''test_user'', ''0x400d1234 (CPU 0)'']) \<and>
   complete_entry ('' -'', [''test_2_user'', ''0x400d5678 (CPU 1)'', '''']) \<and>
   name (attribute
     [''Task watchdog got triggered. The following tasks/users did not reset the watchdog in time:'',
      '' -'', ''test_user'', ''0x400d1234 (CPU 0)'',
      '' -'', ''test_2_user'', ''0x400d5678 (CPU 1)'', ''''] initial_globals)
     = ''test_2_user'' \<and>
   captured (attribute
     [''Task watchdog got triggered. The following tasks/users did not reset the watchdog in time:'',
      '' -'', ''test_user'', ''0x400d1234 (CPU 0)'',
      '' -'', ''test_2_user'', ''0x400d5678 (CPU 1)'', ''''] initial_globals)"
proof -
  let ?r = "[''Task watchdog got triggered. The following tasks/users did not reset the watchdog in time:'',
            '' -'', ''test_user'', ''0x400d1234 (CPU 0)'',
            '' -'', ''test_2_user'', ''0x400d5678 (CPU 1)'', '''']"
  let ?e1 = "('' -'', [''test_user'', ''0x400d1234 (CPU 0)''])"
  let ?e2 = "('' -'', [''test_2_user'', ''0x400d5678 (CPU 1)'', ''''])"
  have e: "entries ?r = [?e1, ?e2]" by code_simp
  have c1: "complete_entry ?e1" by code_simp
  have c2: "complete_entry ?e2" by code_simp
  have p1: "parsed_name ?e1 = Some ''test_user''" by code_simp
  have p2: "parsed_name ?e2 = Some ''test_2_user''" by code_simp
  show ?thesis
    using last_entry_decides_name [of ?r initial_globals] c1 c2
    by (simp add: e p1 p2 del: entries.simps)
qed

text \<open>
  C4, as the claim states it, fails: in a report of two complete groups where the first
  yields \<open>test_user\<close> and the second, with a detail line of 34 characters, yields
  nothing, the last group that parsed is the first one. The result has \<open>captured\<close> true,
  but the name is not \<open>test_user\<close>: the second header has cleared it.
\<close>

theorem last_parsed_name_counterexample:
  "entries ['' -'', ''test_user'', ''0x400d1234 (CPU 0)'',
            '' -'', ''a_unit_name_that_exceeds_the_limit'', ''0x400d5678 (CPU 1)'']
     = [('' -'', [''test_user'', ''0x400d1234 (CPU 0)'']),
        ('' -'', [''a_unit_name_that_exceeds_the_limit'', ''0x400d5678 (CPU 1)''])] \<and>
   complete_entry ('' -'', [''test_user'', ''0x400d1234 (CPU 0)'']) \<and>
   complete_entry ('' -'', [''a_unit_name_that_exceeds_the_limit'', ''0x400d5678 (CPU 1)'']) \<and>
   parsed_name ('' -'', [''test_user'', ''0x400d1234 (CPU 0)'']) = Some ''test_user'' \<and>
   parsed_name ('' -'', [''a_unit_name_that_exceeds_the_limit'', ''0x400d5678 (CPU 1)''])
     = None \<and>
   captured (attribute ['' -'', ''test_user'', ''0x400d1234 (CPU 0)'',
                        '' -'', ''a_unit_name_that_exceeds_the_limit'',
                        ''0x400d5678 (CPU 1)''] initial_globals) \<and>
   name (attribute ['' -'', ''test_user'', ''0x400d1234 (CPU 0)'',
                    '' -'', ''a_unit_name_that_exceeds_the_limit'',
                    ''0x400d5678 (CPU 1)''] initial_globals) \<noteq> ''test_user''"
  by code_simp

section \<open>The interrupt handler and the expiry flag\<close>

lemma isr_handler_cases:
  "event_group g = None \<Longrightarrow>
   esp_task_wdt_isr_user_handler woken g = (g\<lparr>g_watchdog_timeout_occurred := True\<rparr>, [])"
  "event_group g = Some grp \<Longrightarrow>
   esp_task_wdt_isr_user_handler woken g =
     (g\<lparr>g_watchdog_timeout_occurred := True,
        event_group := Some (grp OR RECOVERY_ACTIVE_BIT)\<rparr>,
      XEventGroupSetBitsFromISR RECOVERY_ACTIVE_BIT
        # (if woken then [PortYIELD_FROM_ISR] else []))"
  by (simp_all add: esp_task_wdt_isr_user_handler_def Let_def)

lemma isr_sets_flag:
  "g_watchdog_timeout_occurred (fst (esp_task_wdt_isr_user_handler woken g))"
  by (cases "event_group g") (simp_all add: isr_handler_cases)

lemma step_keeps_flag:
  assumes "g_watchdog_timeout_occurred g" and "\<not> consumer e" and "step e g = Some g'"
  shows "g_watchdog_timeout_occurred g'"
proof (cases e)
  case (Isr woken)
  then show ?thesis using assms(3) isr_sets_flag by auto
next
  case (Msg msg)
  then show ?thesis using assms(1,3) handler_frame(1) by auto
next
  case Recovery_wait
  then show ?thesis
    using assms(1,3) by (auto split: option.splits wait_result.splits)
next
  case Recovery_reset
  then show ?thesis using assms(1,3) by (auto simp: reset_capture_def)
next
  case (Recovery_dispatch bits)
  then show ?thesis using assms(2) by simp
next
  case (Main_recovery_dispatch bits)
  then show ?thesis using assms(2) by simp
next
  case (App_main created err)
  then show ?thesis
    using assms(1,3) by (auto simp: app_main_def split: option.splits)
next
  case (Main_app_main created err)
  then show ?thesis
    using assms(1,3) by (auto simp: main_app_main_def split: option.splits)
next
  case (Test_task_register err h)
  then show ?thesis
    using assms(1,3) by (auto simp: test_task_register_def split: if_splits)
next
  case (Test_2_task_register err h)
  then show ?thesis
    using assms(1,3) by (auto simp: test_2_task_register_def split: if_splits)
next
  case (Test_task err counter)
  then show ?thesis
    using assms(1,3) by (auto simp: test_task_def)
next
  case (Test_2_task err counter)
  then show ?thesis
    using assms(1,3) by (auto simp: test_2_task_def)
qed

lemma run_keeps_flag:
  assumes "g_watchdog_timeout_occurred g" and "\<forall>e\<in>set es. \<not> consumer e"
    and "run es g = Some g'"
  shows "g_watchdog_timeout_occurred g'"
  using assms
proof (induction es arbitrary: g)
  case Nil
  then show ?case by simp
next
  case (Cons e es)
  from Cons.prems(3) obtain g1 where g1: "step e g = Some g1" and rest: "run es g1 = Some g'"
    by (auto split: option.splits)
  have "g_watchdog_timeout_occurred g1"
    using step_keeps_flag [OF Cons.prems(1) _ g1] Cons.prems(2) by simp
  then show ?case
    using Cons.IH [OF _ _ rest] Cons.prems(2) by simp
qed

lemma dispatch_clears_on_wake_bit:
  assumes "g_watchdog_timeout_occurred g"
  shows "g_watchdog_timeout_occurred (fst (recovery_dispatch bits g))
           = (bits AND RECOVERY_ACTIVE_BIT = 0)"
    and "g_watchdog_timeout_occurred (fst (main_recovery_dispatch bits g))
           = (bits AND RECOVERY_ACTIVE_BIT = 0)"
  using assms by (simp_all add: recovery_dispatch_def main_recovery_dispatch_def)

text \<open>
  C6: the interrupt handler sets \<open>g_watchdog_timeout_occurred\<close>. Once it is set, it stays
  set along every interleaving of steps of the program that has no dispatch step of a
  recovery task: no other step clears it. A step that does clear it is the dispatch of a
  recovery task, in an iteration whose wait returned the recovery bit.
\<close>

theorem flag_set_until_consumed:
  "g_watchdog_timeout_occurred (fst (esp_task_wdt_isr_user_handler woken g)) \<and>
   (g_watchdog_timeout_occurred g \<and> (\<forall>e\<in>set es. \<not> consumer e) \<and> run es g = Some g'
      \<longrightarrow> g_watchdog_timeout_occurred g') \<and>
   (g_watchdog_timeout_occurred g \<and> step e g = Some g' \<and> \<not> g_watchdog_timeout_occurred g'
      \<longrightarrow> (\<exists>bits. (e = Recovery_dispatch bits \<or> e = Main_recovery_dispatch bits) \<and>
                   bits AND RECOVERY_ACTIVE_BIT \<noteq> 0))"
proof (intro conjI impI)
  show "g_watchdog_timeout_occurred (fst (esp_task_wdt_isr_user_handler woken g))"
    by (rule isr_sets_flag)
next
  assume "g_watchdog_timeout_occurred g \<and> (\<forall>e\<in>set es. \<not> consumer e) \<and> run es g = Some g'"
  then show "g_watchdog_timeout_occurred g'"
    using run_keeps_flag by blast
next
  assume a: "g_watchdog_timeout_occurred g \<and> step e g = Some g' \<and>
             \<not> g_watchdog_timeout_occurred g'"
  then have c: "consumer e"
    using step_keeps_flag by blast
  then consider bits where "e = Recovery_dispatch bits" | bits where "e = Main_recovery_dispatch bits"
    by (cases e) auto
  then show "\<exists>bits. (e = Recovery_dispatch bits \<or> e = Main_recovery_dispatch bits) \<and>
                   bits AND RECOVERY_ACTIVE_BIT \<noteq> 0"
  proof cases
    case 1
    then show ?thesis
      using a dispatch_clears_on_wake_bit(1) [of g bits] by auto
  next
    case 2
    then show ?thesis
      using a dispatch_clears_on_wake_bit(2) [of g bits] by auto
  qed
qed

text \<open>
  C6 at a concrete input: the handler sets the flag; test task iterations, the wait, the
  reset of the capture state, two messages of a report and a second interrupt leave it
  set; the dispatch after a wake clears it.
\<close>

theorem flag_set_until_consumed_witness:
  "g_watchdog_timeout_occurred
     (fst (esp_task_wdt_isr_user_handler True (initial_globals\<lparr>event_group := Some 0\<rparr>))) \<and>
   map_option g_watchdog_timeout_occurred
     (run [Test_task 0 0, Recovery_wait, Recovery_reset, Msg '' -'', Msg ''test_user'',
           Isr False, Test_2_task 0 3]
        (fst (esp_task_wdt_isr_user_handler True (initial_globals\<lparr>event_group := Some 0\<rparr>))))
     = Some True \<and>
   \<not> g_watchdog_timeout_occurred
       (fst (recovery_dispatch RECOVERY_ACTIVE_BIT
          (fst (esp_task_wdt_isr_user_handler True (initial_globals\<lparr>event_group := Some 0\<rparr>))))) \<and>
   RECOVERY_ACTIVE_BIT AND RECOVERY_ACTIVE_BIT \<noteq> 0"
proof -
  let ?g = "fst (esp_task_wdt_isr_user_handler True (initial_globals\<lparr>event_group := Some 0\<rparr>))"
  let ?es = "[Test_task 0 0, Recovery_wait, Recovery_reset, Msg '' -'', Msg ''test_user'',
              Isr False, Test_2_task 0 3]"
  let ?g2 = "fst (recovery_dispatch RECOVERY_ACTIVE_BIT ?g)"
  have f: "g_watchdog_timeout_occurred ?g"
    using flag_set_until_consumed [of True "initial_globals\<lparr>event_group := Some 0\<rparr>"]
    by blast
  have nc: "\<forall>e\<in>set ?es. \<not> consumer e"
    by simp
  have "run ?es ?g \<noteq> None"
    by code_simp
  then obtain g' where r: "run ?es ?g = Some g'"
    by auto
  have "g_watchdog_timeout_occurred g'"
    using flag_set_until_consumed [of True ?g ?es g'] f nc r by blast
  then have kept: "map_option g_watchdog_timeout_occurred (run ?es ?g) = Some True"
    using r by simp
  have cleared: "\<not> g_watchdog_timeout_occurred ?g2"
    by code_simp
  have "\<exists>bits. (Recovery_dispatch RECOVERY_ACTIVE_BIT = Recovery_dispatch bits \<or>
                 Recovery_dispatch RECOVERY_ACTIVE_BIT = Main_recovery_dispatch bits) \<and>
                bits AND RECOVERY_ACTIVE_BIT \<noteq> 0"
    using flag_set_until_consumed [of True ?g "[]" ?g2 "Recovery_dispatch RECOVERY_ACTIVE_BIT"]
      f cleared by simp
  then have "RECOVERY_ACTIVE_BIT AND RECOVERY_ACTIVE_BIT \<noteq> 0"
    by auto
  then show ?thesis
    using f kept cleared by simp
qed

text \<open>
  C7: the interrupt handler changes two globals at most. It sets the flag, and it sets the
  recovery bit of the event group when there is one, keeping the group's other bits. The
  user handles and the capture state are as before. Its only calls are
  \<open>xEventGroupSetBitsFromISR\<close> and, when that reports a woken task of higher priority,
  \<open>portYIELD_FROM_ISR\<close>: nothing that logs, allocates or blocks.
\<close>

theorem isr_handler_frame:
  "fst (esp_task_wdt_isr_user_handler woken g) =
     g\<lparr>g_watchdog_timeout_occurred := True,
       event_group := map_option (\<lambda>grp. grp OR RECOVERY_ACTIVE_BIT) (event_group g)\<rparr> \<and>
   snd (esp_task_wdt_isr_user_handler woken g) =
     (if event_group g = None then []
      else XEventGroupSetBitsFromISR RECOVERY_ACTIVE_BIT
             # (if woken then [PortYIELD_FROM_ISR] else [])) \<and>
   twdt_user_handle (fst (esp_task_wdt_isr_user_handler woken g)) = twdt_user_handle g \<and>
   twdt_user_2_handle (fst (esp_task_wdt_isr_user_handler woken g)) = twdt_user_2_handle g \<and>
   failed_task_name (fst (esp_task_wdt_isr_user_handler woken g)) = failed_task_name g \<and>
   capturing_task_name (fst (esp_task_wdt_isr_user_handler woken g)) = capturing_task_name g \<and>
   task_name_captured (fst (esp_task_wdt_isr_user_handler woken g)) = task_name_captured g \<and>
   set (snd (esp_task_wdt_isr_user_handler woken g))
     \<subseteq> {XEventGroupSetBitsFromISR RECOVERY_ACTIVE_BIT, PortYIELD_FROM_ISR}"
  by (cases "event_group g") (auto simp: isr_handler_cases)

section \<open>Wakes of the recovery task\<close>

lemma wake_bit_posted: "(grp OR RECOVERY_ACTIVE_BIT) AND RECOVERY_ACTIVE_BIT \<noteq> 0"
  by (simp add: RECOVERY_ACTIVE_BIT_def word_ao_absorbs)

lemma wake_runs_recovery:
  assumes "event_group g = Some grp"
  shows "\<exists>g2 t. recovery_task report (fst (esp_task_wdt_isr_user_handler woken g)) = Some (g2, t)
                 \<and> \<not> g_watchdog_timeout_occurred g2"
    and "\<exists>g2 t. main_recovery_task (fst (esp_task_wdt_isr_user_handler woken g)) = Some (g2, t)
                 \<and> \<not> g_watchdog_timeout_occurred g2"
  using wake_bit_posted [of grp]
  by (simp_all add: isr_handler_cases(2) [OF assms] recovery_task_def main_recovery_task_def
      xEventGroupWaitBits_def recovery_cycle_def recovery_diagnose_def recovery_dispatch_def
      main_recovery_dispatch_def attribute_frame split: prod.splits)

lemma no_wake_blocks:
  assumes "\<not> wake_pending g"
  shows "recovery_task report g = None" and "main_recovery_task g = None"
    and "step Recovery_wait g = None"
  using assms
  by (auto simp: wake_pending_def recovery_task_def main_recovery_task_def
      xEventGroupWaitBits_def split: option.splits)

lemma dispatch_frame:
  "event_group (fst (recovery_dispatch bits g)) = event_group g"
  "event_group (fst (main_recovery_dispatch bits g)) = event_group g"
  by (simp_all add: recovery_dispatch_def main_recovery_dispatch_def)

lemma step_keeps_no_wake:
  assumes "\<not> wake_pending g" and "\<not> is_isr e" and "step e g = Some g'"
  shows "\<not> wake_pending g'"
proof (cases e)
  case (Isr woken)
  then show ?thesis using assms(2) by simp
next
  case (Msg msg)
  then show ?thesis using assms(1,3) by (auto simp: wake_pending_def handler_frame)
next
  case Recovery_wait
  then show ?thesis using assms(1,3) no_wake_blocks(3) by auto
next
  case Recovery_reset
  then show ?thesis using assms(1,3) by (auto simp: wake_pending_def reset_capture_def)
next
  case (Recovery_dispatch bits)
  then show ?thesis
    using assms(1,3) by (auto simp: wake_pending_def dispatch_frame)
next
  case (Main_recovery_dispatch bits)
  then show ?thesis
    using assms(1,3) by (auto simp: wake_pending_def dispatch_frame)
next
  case (App_main created err)
  then show ?thesis
    using assms(3) by (auto simp: wake_pending_def app_main_def split: option.splits if_splits)
next
  case (Main_app_main created err)
  then show ?thesis
    using assms(3)
    by (auto simp: wake_pending_def main_app_main_def split: option.splits if_splits)
next
  case (Test_task_register err h)
  then show ?thesis
    using assms(1,3) by (auto simp: wake_pending_def test_task_register_def split: if_splits)
next
  case (Test_2_task_register err h)
  then show ?thesis
    using assms(1,3) by (auto simp: wake_pending_def test_2_task_register_def split: if_splits)
next
  case (Test_task err counter)
  then show ?thesis using assms(1,3) by (auto simp: test_task_def)
next
  case (Test_2_task err counter)
  then show ?thesis using assms(1,3) by (auto simp: test_2_task_def)
qed

lemma run_keeps_no_wake:
  assumes "\<not> wake_pending g" and "\<forall>e\<in>set es. \<not> is_isr e" and "run es g = Some g'"
  shows "\<not> wake_pending g'"
  using assms
proof (induction es arbitrary: g)
  case Nil
  then show ?case by simp
next
  case (Cons e es)
  from Cons.prems(3) obtain g1 where g1: "step e g = Some g1" and rest: "run es g1 = Some g'"
    by (auto split: option.splits)
  have "\<not> wake_pending g1"
    using step_keeps_no_wake [OF Cons.prems(1) _ g1] Cons.prems(2) by simp
  then show ?case
    using Cons.IH [OF _ _ rest] Cons.prems(2) by simp
qed

text \<open>
  C10: when the interrupt handler runs while \<open>event_group\<close> is still NULL, it sets the flag
  and makes no call, so no wake is posted. Along every run from there that has no further
  interrupt (and no dispatch step, which cannot come before a wait has returned) the flag
  stays set and neither recovery task gets past its wait, also once \<open>app_main\<close> has
  created the event group. A later interrupt, with the event group there, posts the wake:
  the next iteration of the recovery task runs and clears the flag.
\<close>

theorem isr_without_event_group:
  assumes "event_group g = None"
  shows "esp_task_wdt_isr_user_handler woken g
           = (g\<lparr>g_watchdog_timeout_occurred := True\<rparr>, []) \<and>
         ((\<forall>e\<in>set es. \<not> is_isr e \<and> \<not> consumer e) \<and>
          run es (g\<lparr>g_watchdog_timeout_occurred := True\<rparr>) = Some g'
            \<longrightarrow> g_watchdog_timeout_occurred g' \<and> recovery_task report g' = None \<and>
                main_recovery_task g' = None) \<and>
         (event_group g' \<noteq> None
            \<longrightarrow> (\<exists>g2 t. recovery_task report (fst (esp_task_wdt_isr_user_handler woken' g'))
                          = Some (g2, t) \<and> \<not> g_watchdog_timeout_occurred g2))"
proof (intro conjI impI)
  show "esp_task_wdt_isr_user_handler woken g = (g\<lparr>g_watchdog_timeout_occurred := True\<rparr>, [])"
    using assms by (rule isr_handler_cases(1))
next
  assume a: "(\<forall>e\<in>set es. \<not> is_isr e \<and> \<not> consumer e) \<and>
             run es (g\<lparr>g_watchdog_timeout_occurred := True\<rparr>) = Some g'"
  have "\<not> wake_pending (g\<lparr>g_watchdog_timeout_occurred := True\<rparr>)"
    using assms by (simp add: wake_pending_def)
  then have "\<not> wake_pending g'"
    using run_keeps_no_wake a by blast
  then show "recovery_task report g' = None" and "main_recovery_task g' = None"
    by (simp_all add: no_wake_blocks)
  show "g_watchdog_timeout_occurred g'"
    using run_keeps_flag [of "g\<lparr>g_watchdog_timeout_occurred := True\<rparr>" es g'] a by simp
next
  assume "event_group g' \<noteq> None"
  then obtain grp where "event_group g' = Some grp"
    by auto
  then show "\<exists>g2 t. recovery_task report (fst (esp_task_wdt_isr_user_handler woken' g'))
                      = Some (g2, t) \<and> \<not> g_watchdog_timeout_occurred g2"
    by (rule wake_runs_recovery(1))
qed

text \<open>
  C10 at a concrete input: the handler on the initial globals, then \<open>app_main\<close> and the
  first steps of a test task, then a second interrupt.
\<close>

theorem isr_without_event_group_witness:
  "event_group initial_globals = None \<and>
   esp_task_wdt_isr_user_handler True initial_globals
     = (initial_globals\<lparr>g_watchdog_timeout_occurred := True\<rparr>, []) \<and>
   run [App_main True ESP_OK, Test_task_register ESP_OK 7, Test_task ESP_OK 0]
       (initial_globals\<lparr>g_watchdog_timeout_occurred := True\<rparr>)
     = Some (initial_globals\<lparr>g_watchdog_timeout_occurred := True, event_group := Some 0,
                             twdt_user_handle := Some 7\<rparr>) \<and>
   recovery_task [] (initial_globals\<lparr>g_watchdog_timeout_occurred := True,
                      event_group := Some 0, twdt_user_handle := Some 7\<rparr>) = None \<and>
   map_option (g_watchdog_timeout_occurred \<circ> fst)
     (recovery_task []
        (fst (esp_task_wdt_isr_user_handler False
           (initial_globals\<lparr>g_watchdog_timeout_occurred := True, event_group := Some 0,
                            twdt_user_handle := Some 7\<rparr>))))
     = Some False"
proof -
  let ?es = "[App_main True ESP_OK, Test_task_register ESP_OK 7, Test_task ESP_OK 0]"
  let ?g' = "initial_globals\<lparr>g_watchdog_timeout_occurred := True, event_group := Some 0,
                             twdt_user_handle := Some 7\<rparr>"
  have n: "event_group initial_globals = None"
    by (simp add: initial_globals_def)
  have r: "run ?es (initial_globals\<lparr>g_watchdog_timeout_occurred := True\<rparr>) = Some ?g'"
    by code_simp
  have q: "\<forall>e\<in>set ?es. \<not> is_isr e \<and> \<not> consumer e"
    by simp
  have eg: "event_group ?g' \<noteq> None"
    by simp
  note t = isr_without_event_group [OF n, of True ?es ?g' "[]" False]
  from t have "esp_task_wdt_isr_user_handler True initial_globals
     = (initial_globals\<lparr>g_watchdog_timeout_occurred := True\<rparr>, [])"
    by blast
  moreover from t q r have "recovery_task [] ?g' = None"
    by blast
  moreover from t eg have "\<exists>g2 t. recovery_task [] (fst (esp_task_wdt_isr_user_handler False ?g'))
                          = Some (g2, t) \<and> \<not> g_watchdog_timeout_occurred g2"
    by blast
  then have "map_option (g_watchdog_timeout_occurred \<circ> fst)
     (recovery_task [] (fst (esp_task_wdt_isr_user_handler False ?g'))) = Some False"
    by auto
  ultimately show ?thesis
    using n r by simp
qed

section \<open>The watchdog configuration\<close>



end
